theory Spec2Isabelle
  imports Main "HOL-Library.Product_Lexorder" "HOL-Library.Multiset"
begin

section \<open>The record data model of \<^verbatim>\<open>todo_app.py\<close>\<close>

text \<open>
  The dataclass \<^verbatim>\<open>Todo\<close> with the types of its annotations. Python's \<^verbatim>\<open>int\<close> is
  unbounded, so \<^verbatim>\<open>id\<close> is an \<^typ>\<open>int\<close>; the field is called \<open>ident\<close> here
  because \<open>id\<close> is the identity function of HOL. A \<^verbatim>\<open>str\<close> is a \<^typ>\<open>string\<close>,
  read as a sequence of code points below 256; \<^verbatim>\<open>Optional[str]\<close> is a
  \<^typ>\<open>string option\<close> with \<open>None\<close> for Python's \<^verbatim>\<open>None\<close>.
\<close>

record todo =
  ident :: int
  title :: string
  description :: string
  due_date :: "string option"
  completed :: bool
  created_at :: string

subsection \<open>\<^verbatim>\<open>next_id\<close>\<close>

text \<open>
  \<^verbatim>\<open>max(iterable, default=0)\<close>: the default for an empty iterable, otherwise the
  greatest element, found by one pass from the first element.
\<close>

definition max_default :: "int list \<Rightarrow> int \<Rightarrow> int" where
  "max_default xs d = (case xs of [] \<Rightarrow> d | y # ys \<Rightarrow> fold max ys y)"

definition next_id :: "todo list \<Rightarrow> int" where
  "next_id todos = max_default (map ident todos) 0 + 1"

subsection \<open>\<^verbatim>\<open>find_by_id\<close>\<close>

fun find_by_id :: "todo list \<Rightarrow> int \<Rightarrow> todo option" where
  "find_by_id [] todo_id = None"
| "find_by_id (t # ts) todo_id = (if ident t = todo_id then Some t else find_by_id ts todo_id)"

subsection \<open>\<^verbatim>\<open>str.strip\<close>\<close>

text \<open>
  \<^verbatim>\<open>str.isspace\<close> on the code points below 256: tab to carriage return, the four
  separators 28 to 31, the space, NEL (133) and the no-break space (160).
  \<^verbatim>\<open>s.strip()\<close> drops these from both ends.
\<close>

definition isspace :: "char \<Rightarrow> bool" where
  "isspace c = (of_char c \<in> set [9, 10, 11, 12, 13, 28, 29, 30, 31, 32, 133, 160 :: nat])"

definition strip :: "string \<Rightarrow> string" where
  "strip s = rev (dropWhile isspace (rev (dropWhile isspace s)))"

section \<open>The backing file and the effects of the program\<close>

text \<open>
  What \<^verbatim>\<open>json.load\<close> returns and \<^verbatim>\<open>json.dump\<close> accepts: \<^verbatim>\<open>None\<close>, a bool, an
  int, a float (kept as the bit pattern of the double; nothing here looks into it), a
  str, a list, or a dict with str keys, given by its items in insertion order.
\<close>

datatype json =
    JNull
  | JBool bool
  | JInt int
  | JFloat nat
  | JStr string
  | JList "json list"
  | JObj "(string \<times> json) list"

text \<open>
  The file \<^verbatim>\<open>todos.json\<close> is in one of four states for a reader: it does not exist;
  it exists but \<^verbatim>\<open>open\<close> or \<^verbatim>\<open>read\<close> raises \<^verbatim>\<open>OSError\<close>; its bytes are not UTF-8 or
  not JSON (\<^verbatim>\<open>UnicodeDecodeError\<close>, a \<^verbatim>\<open>ValueError\<close>, or \<^verbatim>\<open>JSONDecodeError\<close>); or it
  holds the text of a JSON value. The text itself is the library's business: the model
  keeps the value that \<^verbatim>\<open>json.dump\<close> wrote and \<^verbatim>\<open>json.load\<close> reads back.
  Writing is taken to succeed (the source handles no failure of \<^verbatim>\<open>open(..., "w")\<close>).
\<close>

datatype disk = Missing | Unreadable | Malformed | Stored json

text \<open>
  The observable effects, in order: a write of the whole file, a line printed, and a
  record shown by \<^verbatim>\<open>print_todo\<close> (whose rendering is not modelled).
\<close>

datatype event = Wrote json | Printed string | Shown todo

record world =
  data_file :: disk
  trace :: "event list"

text \<open>
  Both exceptions that the callers catch are \<^verbatim>\<open>ValueError\<close>s. The source raises one
  with a message; \<^verbatim>\<open>datetime.strptime\<close> raises the others: the text does not match the
  format (the message quotes the whole text), text is left over after the match (the
  message quotes the rest), or the year or the day is out of range (the message quotes
  no text).
\<close>

datatype reason = Message string | No_match string | Unconverted string | Out_of_range

datatype error = ValueError reason

subsection \<open>\<^verbatim>\<open>save_todos\<close>\<close>

text \<open>\<^verbatim>\<open>dataclasses.asdict\<close>: the fields in the order of their declaration.\<close>

definition asdict :: "todo \<Rightarrow> json" where
  "asdict t = JObj
     [(''id'', JInt (ident t)),
      (''title'', JStr (title t)),
      (''description'', JStr (description t)),
      (''due_date'', (case due_date t of None \<Rightarrow> JNull | Some s \<Rightarrow> JStr s)),
      (''completed'', JBool (completed t)),
      (''created_at'', JStr (created_at t))]"

definition save_todos :: "todo list \<Rightarrow> world \<Rightarrow> world" where
  "save_todos todos w =
     w\<lparr>data_file := Stored (JList (map asdict todos)),
       trace := trace w @ [Wrote (JList (map asdict todos))]\<rparr>"

section \<open>The CRUD operations\<close>

text \<open>
  Each operation takes the list object \<^verbatim>\<open>todos\<close> and the world, and returns its
  result together with the list as the call leaves it and the world as the call leaves
  it; a raised exception is the \<open>Inl\<close> result, and the state beside it is the state at
  the moment of the raise. The elements of the list are distinct objects, as in every
  list that \<^verbatim>\<open>load_todos\<close> and \<^verbatim>\<open>add_todo\<close> build.
\<close>

subsection \<open>\<^verbatim>\<open>add_todo\<close>\<close>

text \<open>The argument \<open>now\<close> is what \<^verbatim>\<open>now_str()\<close> returns at the call.\<close>

definition add_todo ::
  "todo list \<Rightarrow> string \<Rightarrow> string \<Rightarrow> string option \<Rightarrow> string \<Rightarrow> world
    \<Rightarrow> todo \<times> todo list \<times> world" where
  "add_todo todos title' description' due now w =
     (let t = \<lparr>ident = next_id todos, title = strip title', description = strip description',
                due_date = due, completed = False, created_at = now\<rparr>;
          todos' = todos @ [t]
      in (t, todos', save_todos todos' w))"

subsection \<open>\<^verbatim>\<open>update_todo_fields\<close>\<close>

text \<open>
  The record that \<^verbatim>\<open>find_by_id\<close> returns is the first one of the list with the id;
  assigning to its fields changes that element of the list.
\<close>

fun mutate_first :: "int \<Rightarrow> (todo \<Rightarrow> todo) \<Rightarrow> todo list \<Rightarrow> todo list" where
  "mutate_first todo_id f [] = []"
| "mutate_first todo_id f (t # ts) =
     (if ident t = todo_id then f t # ts else t # mutate_first todo_id f ts)"

definition assign_fields ::
  "string option \<Rightarrow> string option \<Rightarrow> string option \<Rightarrow> bool \<Rightarrow> todo \<Rightarrow> todo" where
  "assign_fields title' desc due clear_due t =
     (let t1 = (case title' of None \<Rightarrow> t | Some x \<Rightarrow> t\<lparr>title := strip x\<rparr>);
          t2 = (case desc of None \<Rightarrow> t1 | Some x \<Rightarrow> t1\<lparr>description := strip x\<rparr>)
      in if clear_due then t2\<lparr>due_date := None\<rparr>
         else (case due of None \<Rightarrow> t2 | Some d \<Rightarrow> t2\<lparr>due_date := Some d\<rparr>))"

definition update_todo_fields ::
  "todo list \<Rightarrow> int \<Rightarrow> string option \<Rightarrow> string option \<Rightarrow> string option \<Rightarrow> bool \<Rightarrow> world
    \<Rightarrow> (error + unit) \<times> todo list \<times> world" where
  "update_todo_fields todos todo_id title' desc due clear_due w =
     (case find_by_id todos todo_id of
        None \<Rightarrow> (Inl (ValueError (Message ''To-do not found.'')), todos, w)
      | Some _ \<Rightarrow>
          (let todos' = mutate_first todo_id (assign_fields title' desc due clear_due) todos
           in (Inr (), todos', save_todos todos' w)))"

subsection \<open>\<^verbatim>\<open>set_complete\<close>\<close>

definition set_complete ::
  "todo list \<Rightarrow> int \<Rightarrow> bool \<Rightarrow> world \<Rightarrow> (error + unit) \<times> todo list \<times> world" where
  "set_complete todos todo_id completed' w =
     (case find_by_id todos todo_id of
        None \<Rightarrow> (Inl (ValueError (Message ''To-do not found.'')), todos, w)
      | Some _ \<Rightarrow>
          (let todos' = mutate_first todo_id (\<lambda>t. t\<lparr>completed := completed'\<rparr>) todos
           in (Inr (), todos', save_todos todos' w)))"

subsection \<open>\<^verbatim>\<open>delete_todo\<close>\<close>

text \<open>
  \<^verbatim>\<open>todos.remove(t)\<close> removes the first element equal to \<open>t\<close>, and the equality of a
  dataclass compares the fields.
\<close>

definition delete_todo ::
  "todo list \<Rightarrow> int \<Rightarrow> world \<Rightarrow> (error + unit) \<times> todo list \<times> world" where
  "delete_todo todos todo_id w =
     (case find_by_id todos todo_id of
        None \<Rightarrow> (Inl (ValueError (Message ''To-do not found.'')), todos, w)
      | Some t \<Rightarrow>
          (let todos' = remove1 t todos
           in (Inr (), todos', save_todos todos' w)))"

section \<open>Dates\<close>

subsection \<open>\<^verbatim>\<open>datetime.strptime(s, "%Y-%m-%d").date()\<close>\<close>

text \<open>
  The library turns the format \<^verbatim>\<open>%Y-%m-%d\<close> into the regular expression
  \<^verbatim>\<open>(?P<Y>\d\d\d\d)-(?P<m>1[0-2]|0[1-9]|[1-9])-(?P<d>3[0-1]|[1-2]\d|0[1-9]|[1-9]| [1-9])\<close>
  and matches it at the start of the text. Every alternative is a fixed sequence of
  character classes; on the code points below 256, \<^verbatim>\<open>\d\<close> is \<^verbatim>\<open>[0-9]\<close>.
\<close>

type_synonym cclass = "char \<Rightarrow> bool"

definition between :: "char \<Rightarrow> char \<Rightarrow> cclass" where
  "between lo hi c = (of_char lo \<le> (of_char c :: nat) \<and> (of_char c :: nat) \<le> of_char hi)"

definition digit :: cclass where
  "digit = between CHR ''0'' CHR ''9''"

definition lit :: "char \<Rightarrow> cclass" where
  "lit a c = (c = a)"

text \<open>One alternative at the start of a text: the matched text and the rest.\<close>

fun match_seq :: "cclass list \<Rightarrow> string \<Rightarrow> (string \<times> string) option" where
  "match_seq [] s = Some ([], s)"
| "match_seq (p # ps) [] = None"
| "match_seq (p # ps) (c # cs) =
     (if p c then (case match_seq ps cs of None \<Rightarrow> None | Some (m, r) \<Rightarrow> Some (c # m, r))
      else None)"

text \<open>The alternatives that match, in the order in which the engine tries them.\<close>

definition alts :: "cclass list list \<Rightarrow> string \<Rightarrow> (string \<times> string) list" where
  "alts as s = List.map_filter (\<lambda>a. match_seq a s) as"

definition rx_Y :: "cclass list list" where
  "rx_Y = [[digit, digit, digit, digit]]"

definition rx_m :: "cclass list list" where
  "rx_m = [[lit CHR ''1'', between CHR ''0'' CHR ''2''],
           [lit CHR ''0'', between CHR ''1'' CHR ''9''],
           [between CHR ''1'' CHR ''9'']]"

definition rx_d :: "cclass list list" where
  "rx_d = [[lit CHR ''3'', between CHR ''0'' CHR ''1''],
           [between CHR ''1'' CHR ''2'', digit],
           [lit CHR ''0'', between CHR ''1'' CHR ''9''],
           [between CHR ''1'' CHR ''9''],
           [lit CHR '' '', between CHR ''1'' CHR ''9'']]"

definition rx_hyphen :: "cclass list list" where
  "rx_hyphen = [[lit CHR ''-'']]"

text \<open>
  \<^verbatim>\<open>format_regex.match(data_string)\<close>: the first match that backtracking finds, as
  the three groups and the text after the match.
\<close>

definition format_regex_match :: "string \<Rightarrow> ((string \<times> string \<times> string) \<times> string) option" where
  "format_regex_match data_string =
     (case [((y, m, d), r5).
              (y, r1) \<leftarrow> alts rx_Y data_string,
              (h1, r2) \<leftarrow> alts rx_hyphen r1,
              (m, r3) \<leftarrow> alts rx_m r2,
              (h2, r4) \<leftarrow> alts rx_hyphen r3,
              (d, r5) \<leftarrow> alts rx_d r4]
      of [] \<Rightarrow> None | x # _ \<Rightarrow> Some x)"

text \<open>\<^verbatim>\<open>int(group)\<close> on a group of digits, possibly after a space.\<close>

definition decimal :: "string \<Rightarrow> nat" where
  "decimal s = foldl (\<lambda>n c. 10 * n + (of_char c - 48)) 0 s"

definition py_int :: "string \<Rightarrow> nat" where
  "py_int s = decimal (strip s)"

type_synonym date = "nat \<times> nat \<times> nat"

definition is_leap :: "nat \<Rightarrow> bool" where
  "is_leap y = (y mod 4 = 0 \<and> (y mod 100 \<noteq> 0 \<or> y mod 400 = 0))"

definition days_in_month :: "nat \<Rightarrow> nat \<Rightarrow> nat" where
  "days_in_month y m =
     (if m = 2 then (if is_leap y then 29 else 28)
      else if m \<in> {4, 6, 9, 11} then 30 else 31)"

text \<open>
  A date is (year, month, day); Python compares dates in this lexicographic order.
  After the match the library builds the date, which raises for the year 0 and for a
  day that the month does not have.
\<close>

definition strptime :: "string \<Rightarrow> error + date" where
  "strptime data_string =
     (case format_regex_match data_string of
        None \<Rightarrow> Inl (ValueError (No_match data_string))
      | Some ((y, m, d), rest) \<Rightarrow>
          if rest \<noteq> [] then Inl (ValueError (Unconverted rest))
          else if py_int y < 1 \<or> days_in_month (py_int y) (py_int m) < py_int d
          then Inl (ValueError Out_of_range)
          else Inr (py_int y, py_int m, py_int d))"

subsection \<open>\<^verbatim>\<open>Todo.due_as_date\<close>\<close>

definition due_as_date :: "todo \<Rightarrow> date option" where
  "due_as_date t =
     (case due_date t of
        None \<Rightarrow> None
      | Some s \<Rightarrow>
          if s = [] then None
          else (case strptime s of Inl e \<Rightarrow> None | Inr d \<Rightarrow> Some d))"

subsection \<open>\<^verbatim>\<open>parse_due_date\<close>\<close>



section \<open>Listing\<close>

text \<open>
  The sort key of \<^verbatim>\<open>list_todos\<close>: \<^verbatim>\<open>(0, d, t.id)\<close> for a record with a date (a date
  object is always true) and \<^verbatim>\<open>(1, date.max, t.id)\<close> otherwise. Tuples compare
  lexicographically, and \<^verbatim>\<open>list.sort\<close> is stable, as \<^const>\<open>sort_key\<close> is.
\<close>

definition date_max :: date where
  "date_max = (9999, 12, 31)"

definition key :: "todo \<Rightarrow> nat \<times> date \<times> int" where
  "key t = (case due_as_date t of Some d \<Rightarrow> (0, d, ident t) | None \<Rightarrow> (1, date_max, ident t))"

text \<open>The list \<^verbatim>\<open>items\<close> that the last loop of \<^verbatim>\<open>list_todos\<close> walks through.\<close>

definition list_items :: "todo list \<Rightarrow> bool \<Rightarrow> bool \<Rightarrow> todo list" where
  "list_items todos sort_by_due open_only =
     (let items = (if open_only then filter (\<lambda>t. \<not> completed t) todos else todos)
      in if sort_by_due then sort_key key items else sort_key ident items)"

definition list_todos :: "todo list \<Rightarrow> bool \<Rightarrow> bool \<Rightarrow> world \<Rightarrow> world" where
  "list_todos todos sort_by_due open_only w =
     (if todos = [] then w\<lparr>trace := trace w @ [Printed ''No to-dos yet.'']\<rparr>
      else w\<lparr>trace := trace w @ map Shown (list_items todos sort_by_due open_only)\<rparr>)"

text \<open>
  The order of the specification, as "\<open>a\<close> may stand before \<open>b\<close>": a record with a
  valid date before one without; two with valid dates by date, and by id when the dates
  are equal; two without by id. Dates compare as (year, month, day), lexicographically.
\<close>

definition due_before :: "todo \<Rightarrow> todo \<Rightarrow> bool" where
  "due_before a b =
     (case due_as_date a of
        Some d1 \<Rightarrow>
          (case due_as_date b of
             Some d2 \<Rightarrow> d1 < d2 \<or> (d1 = d2 \<and> ident a \<le> ident b)
           | None \<Rightarrow> True)
      | None \<Rightarrow>
          (case due_as_date b of
             Some d2 \<Rightarrow> False
           | None \<Rightarrow> ident a \<le> ident b))"

section \<open>Loading\<close>








section \<open>Sequences of operations\<close>

text \<open>
  A caller applies one operation after another to the same list; it catches the
  \<^verbatim>\<open>ValueError\<close> of a failed one and goes on with the state as the raise left it.
  Beside the state, a step reports the id that a create assigned and the id whose
  record a delete removed.
\<close>

datatype op =
    Create string string "string option" string
  | Update int "string option" "string option" "string option" bool
  | Complete int bool
  | Delete int

datatype id_event = Assigned int | Deleted int

fun step :: "op \<Rightarrow> todo list \<times> world \<Rightarrow> id_event list \<times> todo list \<times> world" where
  "step (Create title' description' due now) (todos, w) =
     (case add_todo todos title' description' due now w of
        (t, todos', w') \<Rightarrow> ([Assigned (ident t)], todos', w'))"
| "step (Update todo_id title' desc due clear_due) (todos, w) =
     (case update_todo_fields todos todo_id title' desc due clear_due w of
        (r, todos', w') \<Rightarrow> ([], todos', w'))"
| "step (Complete todo_id completed') (todos, w) =
     (case set_complete todos todo_id completed' w of
        (r, todos', w') \<Rightarrow> ([], todos', w'))"
| "step (Delete todo_id) (todos, w) =
     (case delete_todo todos todo_id w of
        (Inl e, todos', w') \<Rightarrow> ([], todos', w')
      | (Inr u, todos', w') \<Rightarrow> ([Deleted todo_id], todos', w'))"

fun run :: "op list \<Rightarrow> todo list \<times> world \<Rightarrow> id_event list \<times> todo list \<times> world" where
  "run [] (todos, w) = ([], todos, w)"
| "run (x # xs) (todos, w) =
     (case step x (todos, w) of
        (es, todos', w') \<Rightarrow>
          (case run xs (todos', w') of (es', todos'', w'') \<Rightarrow> (es @ es', todos'', w'')))"

text \<open>No id is assigned after a record with that id was deleted.\<close>

fun never_reused :: "id_event list \<Rightarrow> bool" where
  "never_reused [] = True"
| "never_reused (Assigned i # es) = never_reused es"
| "never_reused (Deleted i # es) = (Assigned i \<notin> set es \<and> never_reused es)"

text \<open>A text is trimmed when it neither starts nor ends with white space.\<close>

definition trimmed :: "string \<Rightarrow> bool" where
  "trimmed s = (s = [] \<or> (\<not> isspace (hd s) \<and> \<not> isspace (last s)))"

section \<open>Identity assignment\<close>

lemma fold_max_Max: "fold max ys (y::int) = Max (set (y # ys))"
proof (induction ys arbitrary: y)
  case Nil
  show ?case by simp
next
  case (Cons z zs)
  have "fold max (z # zs) y = Max (set (max z y # zs))"
    using Cons.IH [of "max z y"] by simp
  also have "\<dots> = Max (set (y # z # zs))"
  proof (cases zs)
    case Nil
    then show ?thesis by (simp add: max.commute)
  next
    case (Cons a as)
    then show ?thesis by (simp add: max.commute max.left_commute max.assoc)
  qed
  finally show ?case .
qed

lemma max_default_Max: "xs \<noteq> [] \<Longrightarrow> max_default xs d = Max (set xs)"
  by (cases xs) (simp_all add: max_default_def fold_max_Max del: set_simps)

lemma next_id_greater: "t \<in> set todos \<Longrightarrow> ident t < next_id todos"
proof -
  assume m: "t \<in> set todos"
  then have ne: "map ident todos \<noteq> []" by auto
  have "ident t \<le> Max (set (map ident todos))"
    using m by (intro Max_ge) auto
  then show ?thesis
    using max_default_Max [OF ne, of 0] by (simp add: next_id_def)
qed

text \<open>
  C8. \<^verbatim>\<open>next_id\<close> of an empty collection is 1; of a non-empty collection it is one more
  than the greatest id in it; of a collection whose ids are 2 and 5 it is 6.
\<close>

theorem next_id_spec:
  "next_id [] = 1
   \<and> (todos \<noteq> [] \<longrightarrow> next_id todos = Max (ident ` set todos) + 1)
   \<and> (map ident ts = [2, 5] \<longrightarrow> next_id ts = 6)
   \<and> (map ident ts = [5, 2] \<longrightarrow> next_id ts = 6)"
proof (intro conjI impI)
  show "next_id [] = 1" by (simp add: next_id_def max_default_def)
next
  assume "todos \<noteq> []"
  then have "map ident todos \<noteq> []" by simp
  from max_default_Max [OF this, of 0]
  show "next_id todos = Max (ident ` set todos) + 1" by (simp add: next_id_def)
next
  assume "map ident ts = [2, 5]"
  then show "next_id ts = 6" by (simp add: next_id_def max_default_def)
next
  assume "map ident ts = [5, 2]"
  then show "next_id ts = 6" by (simp add: next_id_def max_default_def)
qed

theorem next_id_spec_witness:
  "next_id [] = 1
   \<and> [\<lparr>ident = 2, title = ''a'', description = ''b'', due_date = None, completed = False,
        created_at = ''2025-01-01 10:00''\<rparr>,
       \<lparr>ident = 5, title = ''c'', description = ''d'', due_date = None, completed = True,
        created_at = ''2025-01-02 11:30''\<rparr>] \<noteq> []
   \<and> next_id
       [\<lparr>ident = 2, title = ''a'', description = ''b'', due_date = None, completed = False,
         created_at = ''2025-01-01 10:00''\<rparr>,
        \<lparr>ident = 5, title = ''c'', description = ''d'', due_date = None, completed = True,
         created_at = ''2025-01-02 11:30''\<rparr>] = 6"
  using next_id_spec
    [of "[\<lparr>ident = 2, title = ''a'', description = ''b'', due_date = None, completed = False,
           created_at = ''2025-01-01 10:00''\<rparr>,
          \<lparr>ident = 5, title = ''c'', description = ''d'', due_date = None, completed = True,
           created_at = ''2025-01-02 11:30''\<rparr>]"
        "[\<lparr>ident = 2, title = ''a'', description = ''b'', due_date = None, completed = False,
           created_at = ''2025-01-01 10:00''\<rparr>,
          \<lparr>ident = 5, title = ''c'', description = ''d'', due_date = None, completed = True,
           created_at = ''2025-01-02 11:30''\<rparr>]"]
  by simp

section \<open>Lookup and in-place update\<close>

lemma find_by_id_None_iff: "find_by_id todos i = None \<longleftrightarrow> i \<notin> ident ` set todos"
  by (induction todos) auto

lemma find_by_id_SomeD: "find_by_id todos i = Some t \<Longrightarrow> t \<in> set todos \<and> ident t = i"
  by (induction todos) (auto split: if_splits)

lemma find_by_id_ex: "i \<in> ident ` set todos \<Longrightarrow> \<exists>t. find_by_id todos i = Some t"
  using find_by_id_None_iff [of todos i] by (cases "find_by_id todos i") auto

lemma mutate_first_at:
  "find_by_id todos i = Some t \<Longrightarrow>
   \<exists>k<length todos. todos ! k = t \<and> mutate_first i f todos = todos[k := f t]
      \<and> (\<forall>j<k. ident (todos ! j) \<noteq> i)"
proof (induction todos)
  case Nil
  then show ?case by simp
next
  case (Cons a todos)
  show ?case
  proof (cases "ident a = i")
    case True
    with Cons.prems have "a = t" by simp
    with True show ?thesis by (intro exI [of _ 0]) simp
  next
    case False
    with Cons.prems have "find_by_id todos i = Some t" by simp
    from Cons.IH [OF this] obtain k where k: "k < length todos" "todos ! k = t"
      "mutate_first i f todos = todos[k := f t]" "\<forall>j<k. ident (todos ! j) \<noteq> i" by blast
    have "\<forall>j<Suc k. ident ((a # todos) ! j) \<noteq> i"
      using False k(4) by (auto simp: less_Suc_eq_0_disj)
    with k False show ?thesis by (intro exI [of _ "Suc k"]) simp
  qed
qed

lemma mutate_first_same: "(\<And>t. f t = t) \<Longrightarrow> mutate_first i f todos = todos"
  by (induction todos) auto

lemma map_ident_mutate_first:
  "(\<And>t. ident (f t) = ident t) \<Longrightarrow> map ident (mutate_first i f todos) = map ident todos"
  by (induction todos) auto

lemma find_by_id_mutate_first:
  "(\<And>t. ident (f t) = ident t) \<Longrightarrow>
   find_by_id (mutate_first i f todos) j =
     (if j = i then map_option f (find_by_id todos i) else find_by_id todos j)"
  by (induction todos) auto

lemma ident_assign_fields: "ident (assign_fields a b c d t) = ident t"
  by (simp add: assign_fields_def Let_def split: option.splits)

section \<open>Failures on an absent id\<close>

text \<open>
  C6. When no record of the collection has the given id, \<^verbatim>\<open>update_todo_fields\<close>,
  \<^verbatim>\<open>set_complete\<close> and \<^verbatim>\<open>delete_todo\<close> raise the not-found \<^verbatim>\<open>ValueError\<close>, and at the
  raise the collection is the one passed in and the world is untouched: the backing
  file holds what it held and no write was made.
\<close>

theorem absent_id_not_found:
  assumes "todo_id \<notin> ident ` set todos"
  shows "update_todo_fields todos todo_id title' desc due clear_due w
           = (Inl (ValueError (Message ''To-do not found.'')), todos, w)
       \<and> set_complete todos todo_id completed' w
           = (Inl (ValueError (Message ''To-do not found.'')), todos, w)
       \<and> delete_todo todos todo_id w
           = (Inl (ValueError (Message ''To-do not found.'')), todos, w)"
proof -
  from assms have "find_by_id todos todo_id = None" by (simp add: find_by_id_None_iff)
  then show ?thesis
    by (simp add: update_todo_fields_def set_complete_def delete_todo_def)
qed

theorem absent_id_not_found_witness:
  "(7::int) \<notin> ident ` set [\<lparr>ident = 1, title = ''a'', description = ''b'', due_date = None,
                             completed = False, created_at = ''2025-01-01 10:00''\<rparr>]
   \<and> update_todo_fields
        [\<lparr>ident = 1, title = ''a'', description = ''b'', due_date = None,
          completed = False, created_at = ''2025-01-01 10:00''\<rparr>]
        7 (Some ''x'') None (Some ''2025-02-02'') False \<lparr>data_file = Missing, trace = []\<rparr>
      = (Inl (ValueError (Message ''To-do not found.'')),
         [\<lparr>ident = 1, title = ''a'', description = ''b'', due_date = None,
           completed = False, created_at = ''2025-01-01 10:00''\<rparr>],
         \<lparr>data_file = Missing, trace = []\<rparr>)
   \<and> set_complete
        [\<lparr>ident = 1, title = ''a'', description = ''b'', due_date = None,
          completed = False, created_at = ''2025-01-01 10:00''\<rparr>]
        7 True \<lparr>data_file = Missing, trace = []\<rparr>
      = (Inl (ValueError (Message ''To-do not found.'')),
         [\<lparr>ident = 1, title = ''a'', description = ''b'', due_date = None,
           completed = False, created_at = ''2025-01-01 10:00''\<rparr>],
         \<lparr>data_file = Missing, trace = []\<rparr>)
   \<and> delete_todo
        [\<lparr>ident = 1, title = ''a'', description = ''b'', due_date = None,
          completed = False, created_at = ''2025-01-01 10:00''\<rparr>]
        7 \<lparr>data_file = Missing, trace = []\<rparr>
      = (Inl (ValueError (Message ''To-do not found.'')),
         [\<lparr>ident = 1, title = ''a'', description = ''b'', due_date = None,
           completed = False, created_at = ''2025-01-01 10:00''\<rparr>],
         \<lparr>data_file = Missing, trace = []\<rparr>)"
proof -
  have h: "(7::int) \<notin> ident ` set [\<lparr>ident = 1, title = ''a'', description = ''b'',
             due_date = None, completed = False, created_at = ''2025-01-01 10:00''\<rparr>]"
    by simp
  from absent_id_not_found [OF h] h show ?thesis by blast
qed

section \<open>Updates\<close>

text \<open>
  C9. When a record of the collection has the given id, \<^verbatim>\<open>update_todo_fields\<close> with no
  title, no description, no due date and \<^verbatim>\<open>clear_due\<close> false returns normally, leaves
  the collection as it was, and still writes the collection to the backing file.
\<close>

theorem update_nothing_still_saves:
  assumes "todo_id \<in> ident ` set todos"
  shows "update_todo_fields todos todo_id None None None False w
           = (Inr (), todos, save_todos todos w)
       \<and> data_file (save_todos todos w) = Stored (JList (map asdict todos))
       \<and> trace (save_todos todos w) = trace w @ [Wrote (JList (map asdict todos))]"
proof -
  from find_by_id_ex [OF assms] obtain t where "find_by_id todos todo_id = Some t" ..
  moreover have "mutate_first todo_id (assign_fields None None None False) todos = todos"
    by (rule mutate_first_same) (simp add: assign_fields_def)
  ultimately show ?thesis
    by (simp add: update_todo_fields_def save_todos_def)
qed

theorem update_nothing_still_saves_witness:
  "(1::int) \<in> ident ` set [\<lparr>ident = 1, title = ''a'', description = ''b'', due_date = None,
                             completed = False, created_at = ''2025-01-01 10:00''\<rparr>]
   \<and> update_todo_fields
        [\<lparr>ident = 1, title = ''a'', description = ''b'', due_date = None,
          completed = False, created_at = ''2025-01-01 10:00''\<rparr>]
        1 None None None False \<lparr>data_file = Missing, trace = []\<rparr>
      = (Inr (),
         [\<lparr>ident = 1, title = ''a'', description = ''b'', due_date = None,
           completed = False, created_at = ''2025-01-01 10:00''\<rparr>],
         save_todos
           [\<lparr>ident = 1, title = ''a'', description = ''b'', due_date = None,
             completed = False, created_at = ''2025-01-01 10:00''\<rparr>]
           \<lparr>data_file = Missing, trace = []\<rparr>)"
proof -
  have h: "(1::int) \<in> ident ` set [\<lparr>ident = 1, title = ''a'', description = ''b'',
             due_date = None, completed = False, created_at = ''2025-01-01 10:00''\<rparr>]"
    by simp
  from update_nothing_still_saves [OF h] h show ?thesis by blast
qed

lemma update_found:
  assumes "find_by_id todos todo_id = Some t"
  shows "\<exists>k<length todos. todos ! k = t
           \<and> update_todo_fields todos todo_id title' desc due clear_due w
               = (Inr (), todos[k := assign_fields title' desc due clear_due t],
                  save_todos (todos[k := assign_fields title' desc due clear_due t]) w)
           \<and> find_by_id (todos[k := assign_fields title' desc due clear_due t]) todo_id
               = Some (assign_fields title' desc due clear_due t)"
proof -
  let ?f = "assign_fields title' desc due clear_due"
  from mutate_first_at [OF assms, of ?f] obtain k where k: "k < length todos" "todos ! k = t"
    "mutate_first todo_id ?f todos = todos[k := ?f t]" by blast
  have upd: "update_todo_fields todos todo_id title' desc due clear_due w
               = (Inr (), todos[k := ?f t], save_todos (todos[k := ?f t]) w)"
    using assms k(3) by (simp add: update_todo_fields_def Let_def)
  have "find_by_id (mutate_first todo_id ?f todos) todo_id
          = map_option ?f (find_by_id todos todo_id)"
    by (simp add: find_by_id_mutate_first ident_assign_fields)
  then have "find_by_id (todos[k := ?f t]) todo_id = Some (?f t)"
    using assms k(3) by simp
  with k(1,2) upd show ?thesis by blast
qed

lemma assign_fields_sel:
  "title (assign_fields title' desc due clear_due t)
     = (case title' of None \<Rightarrow> title t | Some x \<Rightarrow> strip x)"
  "description (assign_fields title' desc due clear_due t)
     = (case desc of None \<Rightarrow> description t | Some x \<Rightarrow> strip x)"
  "due_date (assign_fields title' desc due clear_due t)
     = (if clear_due then None else case due of None \<Rightarrow> due_date t | Some d \<Rightarrow> Some d)"
  "completed (assign_fields title' desc due clear_due t) = completed t"
  "created_at (assign_fields title' desc due clear_due t) = created_at t"
  by (simp_all add: assign_fields_def Let_def split: option.splits)

text \<open>
  C4. When the collection has a record \<open>t\<close> with the given id (the first one with it),
  \<^verbatim>\<open>update_todo_fields\<close> returns normally and replaces that one record by a record \<open>t'\<close>:
  its due date is absent whenever \<^verbatim>\<open>clear_due\<close> is set, whatever \<^verbatim>\<open>due\<close> is; otherwise
  it is the supplied \<^verbatim>\<open>due\<close>, or the old one when \<^verbatim>\<open>due\<close> is absent. The title and the
  description are the supplied ones (stripped), or the old ones when absent. No other
  field and no other record changes.
\<close>

theorem update_applies_supplied_fields:
  assumes "find_by_id todos todo_id = Some t"
  shows "\<exists>k t'. k < length todos \<and> todos ! k = t
           \<and> update_todo_fields todos todo_id title' desc due clear_due w
               = (Inr (), todos[k := t'], save_todos (todos[k := t']) w)
           \<and> find_by_id (todos[k := t']) todo_id = Some t'
           \<and> title t' = (case title' of None \<Rightarrow> title t | Some x \<Rightarrow> strip x)
           \<and> description t' = (case desc of None \<Rightarrow> description t | Some x \<Rightarrow> strip x)
           \<and> due_date t' = (if clear_due then None
                             else case due of None \<Rightarrow> due_date t | Some d \<Rightarrow> Some d)
           \<and> ident t' = ident t \<and> completed t' = completed t \<and> created_at t' = created_at t"
proof -
  let ?t' = "assign_fields title' desc due clear_due t"
  from update_found [OF assms, of title' desc due clear_due w]
  obtain k where k: "k < length todos" "todos ! k = t"
    "update_todo_fields todos todo_id title' desc due clear_due w
       = (Inr (), todos[k := ?t'], save_todos (todos[k := ?t']) w)"
    "find_by_id (todos[k := ?t']) todo_id = Some ?t'" by blast
  show ?thesis
    by (rule exI [of _ k], rule exI [of _ ?t'])
       (simp only: k assign_fields_sel ident_assign_fields simp_thms)
qed

theorem update_applies_supplied_fields_witness:
  "find_by_id [\<lparr>ident = 4, title = ''a'', description = ''b'', due_date = Some ''2025-01-01'',
                completed = True, created_at = ''2025-01-01 10:00''\<rparr>] 4
     = Some \<lparr>ident = 4, title = ''a'', description = ''b'', due_date = Some ''2025-01-01'',
              completed = True, created_at = ''2025-01-01 10:00''\<rparr>
   \<and> (\<exists>t'. fst (snd (update_todo_fields
                         [\<lparr>ident = 4, title = ''a'', description = ''b'',
                           due_date = Some ''2025-01-01'', completed = True,
                           created_at = ''2025-01-01 10:00''\<rparr>]
                         4 None None (Some ''2025-05-05'') True
                         \<lparr>data_file = Missing, trace = []\<rparr>)) = [t']
            \<and> due_date t' = None \<and> title t' = ''a'' \<and> description t' = ''b'')"
proof -
  let ?t = "\<lparr>ident = 4, title = ''a'', description = ''b'', due_date = Some ''2025-01-01'',
             completed = True, created_at = ''2025-01-01 10:00''\<rparr>"
  have h: "find_by_id [?t] 4 = Some ?t" by simp
  from update_applies_supplied_fields
         [OF h, of None None "Some ''2025-05-05''" True "\<lparr>data_file = Missing, trace = []\<rparr>"]
  obtain k t' where "k < length [?t]"
    and u: "update_todo_fields [?t] 4 None None (Some ''2025-05-05'') True
              \<lparr>data_file = Missing, trace = []\<rparr>
            = (Inr (), [?t][k := t'], save_todos ([?t][k := t']) \<lparr>data_file = Missing, trace = []\<rparr>)"
    and f: "title t' = (case None of None \<Rightarrow> title ?t | Some x \<Rightarrow> strip x)"
      "description t' = (case None of None \<Rightarrow> description ?t | Some x \<Rightarrow> strip x)"
      "due_date t' = (if True then None
                      else case Some ''2025-05-05'' of None \<Rightarrow> due_date ?t | Some d \<Rightarrow> Some d)"
    by blast
  then have "k = 0" by simp
  with u f h show ?thesis by simp
qed

section \<open>Trimmed titles and descriptions\<close>

lemma last_dropWhile: "dropWhile P xs \<noteq> [] \<Longrightarrow> last (dropWhile P xs) = last xs"
  by (induction xs) (auto split: if_splits)

lemma trimmed_strip: "trimmed (strip s)"
proof -
  let ?u = "dropWhile isspace s"
  let ?v = "dropWhile isspace (rev ?u)"
  show ?thesis
  proof (cases "?v = []")
    case True
    then show ?thesis by (simp add: trimmed_def strip_def)
  next
    case False
    then have hdv: "\<not> isspace (hd ?v)" by (rule hd_dropWhile)
    from False have une: "?u \<noteq> []" by (metis dropWhile.simps(1) rev.simps(1))
    then have hdu: "\<not> isspace (hd ?u)" by (rule hd_dropWhile)
    have "last ?v = last (rev ?u)" using False by (rule last_dropWhile)
    then have "last ?v = hd ?u" using une by (simp add: last_rev)
    with hdu hdv False show ?thesis
      by (simp add: trimmed_def strip_def hd_rev last_rev)
  qed
qed

lemma trimmed_assign_fields:
  assumes "trimmed (title t)" "trimmed (description t)"
  shows "trimmed (title (assign_fields title' desc due clear_due t))
       \<and> trimmed (description (assign_fields title' desc due clear_due t))"
  using assms by (simp add: assign_fields_sel trimmed_strip split: option.splits)

text \<open>
  C10. \<^verbatim>\<open>update_todo_fields\<close> stores a supplied title and a supplied description
  stripped of the white space at both ends. So when every title and description of the
  collection is trimmed, every one is trimmed after the update, whether it succeeds or
  not; the same holds after \<^verbatim>\<open>add_todo\<close>.
\<close>

theorem update_keeps_trimmed:
  assumes "update_todo_fields todos todo_id title' desc due clear_due w = (r, todos', w')"
    and "\<forall>t\<in>set todos. trimmed (title t) \<and> trimmed (description t)"
  shows "(\<forall>t\<in>set todos'. trimmed (title t) \<and> trimmed (description t))
       \<and> (\<forall>x t'. title' = Some x \<and> r = Inr () \<and> find_by_id todos' todo_id = Some t'
             \<longrightarrow> title t' = strip x)
       \<and> (\<forall>y t'. desc = Some y \<and> r = Inr () \<and> find_by_id todos' todo_id = Some t'
             \<longrightarrow> description t' = strip y)
       \<and> (\<forall>t\<in>set (fst (snd (add_todo todos a b c now w))).
             trimmed (title t) \<and> trimmed (description t))"
proof -
  have create: "\<forall>t\<in>set (fst (snd (add_todo todos a b c now w))).
                  trimmed (title t) \<and> trimmed (description t)"
    using assms(2) by (auto simp: add_todo_def Let_def trimmed_strip)
  show ?thesis
  proof (cases "find_by_id todos todo_id")
    case None
    with assms(1) have "todos' = todos" "r \<noteq> Inr ()"
      by (auto simp: update_todo_fields_def)
    with assms(2) create show ?thesis by simp
  next
    case (Some t)
    let ?t' = "assign_fields title' desc due clear_due t"
    from update_found [OF Some, of title' desc due clear_due w] assms(1)
    obtain k where k: "k < length todos" "todos ! k = t" "todos' = todos[k := ?t']"
      "find_by_id todos' todo_id = Some ?t'" by auto
    from k(1,2) have "t \<in> set todos" by auto
    with assms(2) have "trimmed (title ?t') \<and> trimmed (description ?t')"
      by (intro trimmed_assign_fields) auto
    moreover have "set todos' \<subseteq> insert ?t' (set todos)"
      unfolding k(3) by (rule set_update_subset_insert)
    ultimately have inv: "\<forall>t\<in>set todos'. trimmed (title t) \<and> trimmed (description t)"
      using assms(2) by auto
    from k(4) have "\<forall>x t'. title' = Some x \<and> r = Inr () \<and> find_by_id todos' todo_id = Some t'
             \<longrightarrow> title t' = strip x"
      by (auto simp: assign_fields_sel)
    moreover from k(4) have "\<forall>y t'. desc = Some y \<and> r = Inr () \<and> find_by_id todos' todo_id = Some t'
             \<longrightarrow> description t' = strip y"
      by (auto simp: assign_fields_sel)
    ultimately show ?thesis using inv create by blast
  qed
qed
theorem update_keeps_trimmed_witness:
  "update_todo_fields
     [\<lparr>ident = 4, title = ''a'', description = ''b'', due_date = None, completed = True,
       created_at = ''2025-01-01 10:00''\<rparr>]
     4 (Some '' new title  '') (Some [CHR 0x09, CHR ''x'', CHR 0xA0]) None False
     \<lparr>data_file = Missing, trace = []\<rparr>
   = (Inr (),
      [\<lparr>ident = 4, title = ''new title'', description = ''x'', due_date = None,
        completed = True, created_at = ''2025-01-01 10:00''\<rparr>],
      save_todos
        [\<lparr>ident = 4, title = ''new title'', description = ''x'', due_date = None,
          completed = True, created_at = ''2025-01-01 10:00''\<rparr>]
        \<lparr>data_file = Missing, trace = []\<rparr>)
   \<and> trimmed ''a'' \<and> trimmed ''b'' \<and> trimmed ''new title'' \<and> trimmed ''x''"
proof -
  let ?ts = "[\<lparr>ident = 4, title = ''a'', description = ''b'', due_date = None, completed = True,
               created_at = ''2025-01-01 10:00''\<rparr>]"
  let ?ts' = "[\<lparr>ident = 4, title = ''new title'', description = ''x'', due_date = None,
                completed = True, created_at = ''2025-01-01 10:00''\<rparr>]"
  let ?w = "\<lparr>data_file = Missing, trace = []\<rparr>"
  have h1: "update_todo_fields ?ts 4 (Some '' new title  '') (Some [CHR 0x09, CHR ''x'', CHR 0xA0])
              None False ?w = (Inr (), ?ts', save_todos ?ts' ?w)"
    by (simp add: update_todo_fields_def assign_fields_def strip_def isspace_def Let_def)
  have h2: "\<forall>t\<in>set ?ts. trimmed (title t) \<and> trimmed (description t)"
    by (simp add: trimmed_def isspace_def)
  from update_keeps_trimmed [OF h1 h2]
  have "\<forall>t\<in>set ?ts'. trimmed (title t) \<and> trimmed (description t)" by blast
  then have "trimmed ''new title'' \<and> trimmed ''x''" by simp
  moreover from h2 have "trimmed ''a'' \<and> trimmed ''b''" by simp
  ultimately show ?thesis using h1 by blast
qed

section \<open>Persistence\<close>






section \<open>Loading a file\<close>








section \<open>Unique ids over sequences of operations\<close>

lemma distinct_ids_add:
  assumes "distinct (map ident todos)" and "add_todo todos a b c now w = (t, ts, w')"
  shows "distinct (map ident ts) \<and> ts = todos @ [t] \<and> (\<forall>u\<in>set todos. ident u < ident t)"
proof -
  from assms(2) have ts: "ts = todos @ [t]" and t: "ident t = next_id todos"
    by (auto simp: add_todo_def Let_def)
  have gt: "\<forall>u\<in>set todos. ident u < ident t"
    unfolding t by (auto intro: next_id_greater)
  then have "ident t \<notin> ident ` set todos" by auto
  with assms(1) ts gt show ?thesis by simp
qed

lemma distinct_ids_remove1:
  assumes "distinct (map ident todos)"
  shows "distinct (map ident (remove1 t todos))"
proof -
  from assms have "distinct todos" "inj_on ident (set todos)"
    by (simp_all add: distinct_map)
  then have "distinct (remove1 t todos)" "inj_on ident (set (remove1 t todos))"
    by (simp_all add: inj_on_diff)
  then show ?thesis by (simp add: distinct_map)
qed

lemma distinct_ids_step:
  assumes "distinct (map ident todos)" and "step x (todos, w) = (es, todos', w')"
  shows "distinct (map ident todos')"
proof (cases x)
  case (Create a b c now)
  obtain t ts w1 where r: "add_todo todos a b c now w = (t, ts, w1)"
    by (cases "add_todo todos a b c now w") auto
  with assms(2) Create have "todos' = ts" by simp
  with distinct_ids_add [OF assms(1) r] show ?thesis by blast
next
  case (Update i a b c d)
  from assms(2) Update have "map ident todos' = map ident todos"
    by (auto simp: update_todo_fields_def Let_def map_ident_mutate_first ident_assign_fields
             split: option.splits)
  with assms(1) show ?thesis by simp
next
  case (Complete i c)
  from assms(2) Complete have "map ident todos' = map ident todos"
    by (auto simp: set_complete_def Let_def map_ident_mutate_first split: option.splits)
  with assms(1) show ?thesis by simp
next
  case (Delete i)
  from assms(2) Delete have "todos' = todos \<or> (\<exists>t. todos' = remove1 t todos)"
    by (auto simp: delete_todo_def Let_def split: option.splits)
  with assms(1) show ?thesis by (auto intro: distinct_ids_remove1)
qed

lemma distinct_ids_run:
  "distinct (map ident todos) \<Longrightarrow> run ops (todos, w) = (es, todos', w')
   \<Longrightarrow> distinct (map ident todos')"
proof (induction ops arbitrary: todos w es todos' w')
  case Nil
  then show ?case by simp
next
  case (Cons x xs)
  obtain e1 t1 w1 where s: "step x (todos, w) = (e1, t1, w1)"
    by (cases "step x (todos, w)") auto
  obtain e2 t2 w2 where r: "run xs (t1, w1) = (e2, t2, w2)"
    by (cases "run xs (t1, w1)") auto
  from Cons.prems(2) s r have "todos' = t2" by simp
  moreover from distinct_ids_step [OF Cons.prems(1) s] have "distinct (map ident t1)" .
  from Cons.IH [OF this r] have "distinct (map ident t2)" .
  ultimately show ?case by simp
qed

text \<open>
  C1, as the code has it. Starting from a collection with unique ids, after every
  sequence of create, update, complete and delete operations the ids of the collection
  are unique, and a create that follows appends a record whose id is greater than every
  id then in the collection. (The id of a deleted record is therefore assigned again when
  no remaining record has an id as great.)
\<close>

theorem ids_stay_unique:
  assumes "distinct (map ident todos)" and "run ops (todos, w) = (es, todos', w')"
  shows "distinct (map ident todos')
       \<and> (\<forall>a b c now t ts w1 w2. add_todo todos' a b c now w1 = (t, ts, w2)
            \<longrightarrow> ts = todos' @ [t] \<and> (\<forall>u\<in>set todos'. ident u < ident t)
                \<and> distinct (map ident ts))"
proof -
  from distinct_ids_run [OF assms] have d: "distinct (map ident todos')" .
  then show ?thesis using distinct_ids_add [OF d] by blast
qed

text \<open>
  The claim as stated fails: two creates, the deletion of the record with id 2, and a
  third create assign the id 2 twice, the second time after its record was deleted.
\<close>

theorem id_reused_counterexample:
  "fst (run [Create ''a'' ''b'' None ''2025-01-01 09:00'',
             Create ''c'' ''d'' None ''2025-01-01 09:01'',
             Delete 2,
             Create ''e'' ''f'' None ''2025-01-01 09:02'']
            ([], \<lparr>data_file = Missing, trace = []\<rparr>))
     = [Assigned 1, Assigned 2, Deleted 2, Assigned 2]
   \<and> \<not> never_reused [Assigned 1, Assigned 2, Deleted 2, Assigned 2]"
  by (simp add: add_todo_def next_id_def max_default_def delete_todo_def Let_def)

theorem ids_stay_unique_witness:
  "distinct (map ident ([]::todo list))
   \<and> map ident (fst (snd (run [Create ''a'' ''b'' None ''2025-01-01 09:00'',
                                Create ''c'' ''d'' None ''2025-01-01 09:01'',
                                Delete 2,
                                Create ''e'' ''f'' None ''2025-01-01 09:02'']
                               ([], \<lparr>data_file = Missing, trace = []\<rparr>)))) = [1, 2]
   \<and> distinct (map ident (fst (snd (run [Create ''a'' ''b'' None ''2025-01-01 09:00'',
                                Create ''c'' ''d'' None ''2025-01-01 09:01'',
                                Delete 2,
                                Create ''e'' ''f'' None ''2025-01-01 09:02'']
                               ([], \<lparr>data_file = Missing, trace = []\<rparr>)))))"
proof -
  let ?ops = "[Create ''a'' ''b'' None ''2025-01-01 09:00'',
               Create ''c'' ''d'' None ''2025-01-01 09:01'',
               Delete 2,
               Create ''e'' ''f'' None ''2025-01-01 09:02'']"
  let ?s = "([]::todo list, \<lparr>data_file = Missing, trace = []\<rparr>)"
  have h: "distinct (map ident ([]::todo list))" by simp
  obtain es ts w where r: "run ?ops ?s = (es, ts, w)" by (cases "run ?ops ?s") auto
  from ids_stay_unique [OF h r] have "distinct (map ident ts)" by blast
  moreover have "map ident (fst (snd (run ?ops ?s))) = [1, 2]"
    by (simp add: add_todo_def next_id_def max_default_def delete_todo_def Let_def)
  ultimately show ?thesis using r by simp
qed

section \<open>Validating a due date\<close>













section \<open>The order of a listing\<close>

lemma key_le_iff: "key a \<le> key b \<longleftrightarrow> due_before a b"
  by (cases "due_as_date a"; cases "due_as_date b") (auto simp: key_def due_before_def)

lemma sorted_wrt_sort_key: "sorted_wrt (\<lambda>a b. f a \<le> f b) (sort_key f xs)"
  using sorted_sort_key [of f xs] by (simp only: sorted_map)

lemma due_as_date_parsed:
  "due_date t = Some ''2025-03-01'' \<Longrightarrow> due_as_date t = Some (2025, 3, 1)"
  "due_date t = Some ''2025-01-01'' \<Longrightarrow> due_as_date t = Some (2025, 1, 1)"
  "due_date t = None \<Longrightarrow> due_as_date t = None"
proof -
  have "strptime ''2025-03-01'' = Inr (2025, 3, 1)" by code_simp
  then show "due_date t = Some ''2025-03-01'' \<Longrightarrow> due_as_date t = Some (2025, 3, 1)"
    by (simp add: due_as_date_def)
  have "strptime ''2025-01-01'' = Inr (2025, 1, 1)" by code_simp
  then show "due_date t = Some ''2025-01-01'' \<Longrightarrow> due_as_date t = Some (2025, 1, 1)"
    by (simp add: due_as_date_def)
  show "due_date t = None \<Longrightarrow> due_as_date t = None"
    by (simp add: due_as_date_def)
qed

text \<open>
  C2. The records that \<^verbatim>\<open>list_todos\<close> shows are the records of the collection (the open
  ones when \<^verbatim>\<open>open_only\<close> is set), each as often as it occurs. With \<^verbatim>\<open>sort_by_due\<close>
  they stand in the order of the specification: valid dates first and ascending, ties
  and the dateless by ascending id. Without it they stand by ascending id alone, records
  with the same id in the order of the collection. For a non-empty collection these are
  the records shown, in this order. The records with ids 1, 2, 3 and due dates
  2025-03-01, none, 2025-01-01 are listed as 3, 1, 2.
\<close>

theorem list_order:
  "mset (list_items todos sort_by_due open_only)
     = mset (if open_only then filter (\<lambda>t. \<not> completed t) todos else todos)
   \<and> sorted_wrt due_before (list_items todos True open_only)
   \<and> sorted_wrt (\<lambda>a b. ident a \<le> ident b) (list_items todos False open_only)
   \<and> filter (\<lambda>t. ident t = k) (list_items todos False open_only)
       = filter (\<lambda>t. ident t = k) (if open_only then filter (\<lambda>t. \<not> completed t) todos else todos)
   \<and> (todos \<noteq> [] \<longrightarrow>
        list_todos todos sort_by_due open_only w
          = w\<lparr>trace := trace w @ map Shown (list_items todos sort_by_due open_only)\<rparr>)
   \<and> (ident a = 1 \<and> due_date a = Some ''2025-03-01'' \<and> ident b = 2 \<and> due_date b = None
        \<and> ident c = 3 \<and> due_date c = Some ''2025-01-01''
        \<longrightarrow> list_items [a, b, c] True False = [c, a, b])"
proof (intro conjI impI)
  show "mset (list_items todos sort_by_due open_only)
     = mset (if open_only then filter (\<lambda>t. \<not> completed t) todos else todos)"
    by (simp add: list_items_def)
  show "sorted_wrt due_before (list_items todos True open_only)"
    using sorted_wrt_sort_key [of key "if open_only then filter (\<lambda>t. \<not> completed t) todos else todos"]
    by (simp add: list_items_def key_le_iff)
  show "sorted_wrt (\<lambda>a b. ident a \<le> ident b) (list_items todos False open_only)"
    by (simp add: list_items_def sorted_wrt_sort_key)
  show "filter (\<lambda>t. ident t = k) (list_items todos False open_only)
       = filter (\<lambda>t. ident t = k) (if open_only then filter (\<lambda>t. \<not> completed t) todos else todos)"
    by (simp add: list_items_def sort_key_stable)
  show "list_todos todos sort_by_due open_only w
          = w\<lparr>trace := trace w @ map Shown (list_items todos sort_by_due open_only)\<rparr>"
    if "todos \<noteq> []"
    using that by (simp add: list_todos_def)
  show "list_items [a, b, c] True False = [c, a, b]"
    if h: "ident a = 1 \<and> due_date a = Some ''2025-03-01'' \<and> ident b = 2 \<and> due_date b = None
        \<and> ident c = 3 \<and> due_date c = Some ''2025-01-01''"
  proof -
    from h have "key a = (0, (2025, 3, 1), 1)" "key b = (1, date_max, 2)"
      "key c = (0, (2025, 1, 1), 3)"
      by (simp_all add: key_def due_as_date_parsed)
    then show ?thesis by (simp add: list_items_def)
  qed
qed

theorem list_order_witness:
  "map ident
     (list_items
        [\<lparr>ident = 1, title = ''a'', description = ''x'', due_date = Some ''2025-03-01'',
          completed = False, created_at = ''2025-01-01 10:00''\<rparr>,
         \<lparr>ident = 2, title = ''b'', description = ''y'', due_date = None,
          completed = False, created_at = ''2025-01-01 10:01''\<rparr>,
         \<lparr>ident = 3, title = ''c'', description = ''z'', due_date = Some ''2025-01-01'',
          completed = True, created_at = ''2025-01-01 10:02''\<rparr>]
        True False) = [3, 1, 2]"
proof -
  let ?a = "\<lparr>ident = 1, title = ''a'', description = ''x'', due_date = Some ''2025-03-01'',
          completed = False, created_at = ''2025-01-01 10:00''\<rparr>"
  let ?b = "\<lparr>ident = 2, title = ''b'', description = ''y'', due_date = None,
          completed = False, created_at = ''2025-01-01 10:01''\<rparr>"
  let ?c = "\<lparr>ident = 3, title = ''c'', description = ''z'', due_date = Some ''2025-01-01'',
          completed = True, created_at = ''2025-01-01 10:02''\<rparr>"
  have h: "ident ?a = 1 \<and> due_date ?a = Some ''2025-03-01'' \<and> ident ?b = 2 \<and> due_date ?b = None
        \<and> ident ?c = 3 \<and> due_date ?c = Some ''2025-01-01''" by simp
  have "ident ?a = 1 \<and> due_date ?a = Some ''2025-03-01'' \<and> ident ?b = 2 \<and> due_date ?b = None
        \<and> ident ?c = 3 \<and> due_date ?c = Some ''2025-01-01''
        \<longrightarrow> list_items [?a, ?b, ?c] True False = [?c, ?a, ?b]"
    by (rule conjunct2 [OF conjunct2 [OF conjunct2 [OF conjunct2 [OF conjunct2
          [OF list_order [of _ _ _ _ _ ?a ?b ?c]]]]]])
  with h have "list_items [?a, ?b, ?c] True False = [?c, ?a, ?b]" by blast
  then show ?thesis by simp
qed

end
